theory Spec2Isabelle
  imports Complex_Main
begin

section \<open>Numbers and signals\<close>

text \<open>
  The program computes on IEEE doubles held in Signal objects and numpy arrays.
  Finite doubles are idealised as reals (no rounding, no overflow); the infinities and
  NaN are collapsed into the single value \<open>NonFin\<close>, which is all that
  \<open>np.isfinite\<close> and \<open>Signal.isfinite\<close> observe.  For \<open>+\<close> and \<open>*\<close> a non-finite
  operand always gives a non-finite result (\<open>0 * inf = nan\<close>).  A sum or a product
  of finite entries is finite here, where in doubles it can overflow or round: the
  model is one of exact arithmetic.
\<close>

datatype fnum = Fin real | NonFin

fun fmul :: "fnum \<Rightarrow> fnum \<Rightarrow> fnum" where
  "fmul (Fin a) (Fin b) = Fin (a * b)"
| "fmul _ _ = NonFin"

fun fadd :: "fnum \<Rightarrow> fnum \<Rightarrow> fnum" where
  "fadd (Fin a) (Fin b) = Fin (a + b)"
| "fadd _ _ = NonFin"

fun isfin :: "fnum \<Rightarrow> bool" where
  "isfin (Fin a) = True"
| "isfin NonFin = False"

fun the_fin :: "fnum \<Rightarrow> real" where
  "the_fin (Fin a) = a"
| "the_fin NonFin = 0"

type_synonym signal = "fnum list"

text \<open>
  The Signal class is not part of the source; of its operators the weight solver uses
  the elementwise product, the sum of the entries and the finiteness test, and the
  nodes use the elementwise sum and the product with a number.  They are written here
  on lists of entries; the signals of one evaluation share one length.
\<close>

definition smul :: "signal \<Rightarrow> signal \<Rightarrow> signal" where
  "smul a b = map2 fmul a b"

definition sadd :: "signal \<Rightarrow> signal \<Rightarrow> signal" where
  "sadd a b = map2 fadd a b"

definition ssum :: "signal \<Rightarrow> fnum" where
  "ssum a = foldr fadd a (Fin 0)"

definition sscale :: "signal \<Rightarrow> fnum \<Rightarrow> signal" where
  "sscale a w = map (\<lambda>x. fmul x w) a"

definition sig_isfinite :: "signal \<Rightarrow> bool" where
  "sig_isfinite a = list_all isfin a"

definition mat_isfinite :: "fnum list list \<Rightarrow> bool" where
  "mat_isfinite A = list_all sig_isfinite A"

section \<open>Errors\<close>

datatype error = TypeError | IndexError | ValueError | AttributeError

definition ebind :: "error + 'a \<Rightarrow> ('a \<Rightarrow> error + 'b) \<Rightarrow> error + 'b" where
  "ebind m f = (case m of Inl e \<Rightarrow> Inl e | Inr x \<Rightarrow> f x)"

fun map_err :: "('a \<Rightarrow> error + 'b) \<Rightarrow> 'a list \<Rightarrow> error + 'b list" where
  "map_err f [] = Inr []"
| "map_err f (x # xs) =
     (case f x of Inl e \<Rightarrow> Inl e
      | Inr y \<Rightarrow> (case map_err f xs of Inl e \<Rightarrow> Inl e | Inr ys \<Rightarrow> Inr (y # ys)))"

definition getitem :: "'a list \<Rightarrow> int \<Rightarrow> error + 'a" where
  \<comment> \<open>\<open>X[i]\<close> on a list; \<open>X[-1]\<close> is the last item\<close>
  "getitem xs i =
     (if 0 \<le> i \<and> i < int (length xs) then Inr (xs ! nat i)
      else if - int (length xs) \<le> i \<and> i < 0 then Inr (xs ! nat (int (length xs) + i))
      else Inl IndexError)"

section \<open>Nodes\<close>

datatype variant =
  Variable | Add | Mul | Div | Fabs | Exp | Sqrt | Sin | Cos | Ln | Sq | Sigmoid | If_node

text \<open>\<open>variable\<close> is one index or a list of indices; a weight is a number or an array.\<close>

datatype ref = Idx int | Idxs "int list"

datatype weight = Scalar fnum | Vector "fnum list"

record node =
  kind :: variant
  variable :: ref
  weight :: "weight option"
  eval_tr :: "signal option"
  eval_ts :: "signal option"
  ytr :: "signal option"
  mask :: "signal option"
  fitness :: "real option"
  fitness_vs :: "real option"
  position :: int
  nargs :: "nat option"

abbreviation hy :: "node \<Rightarrow> signal option" where
  "hy n \<equiv> eval_tr n"

abbreviation hy_test :: "node \<Rightarrow> signal option" where
  "hy_test n \<equiv> eval_ts n"

text \<open>\<open>nargs\<close> is a class attribute of Function and its subclasses; Variable has none.\<close>

fun class_nargs :: "variant \<Rightarrow> nat option" where
  "class_nargs Variable = None"
| "class_nargs Add = Some 5"
| "class_nargs Mul = Some 2"
| "class_nargs Div = Some 2"
| "class_nargs If_node = Some 3"
| "class_nargs _ = Some 1"

definition init_variable :: "ref \<Rightarrow> error + ref" where
  \<comment> \<open>\<open>variable if len(variable) > 1 else variable[0]\<close>, for a list only\<close>
  "init_variable v =
     (case v of
        Idx i \<Rightarrow> Inr (Idx i)
      | Idxs js \<Rightarrow>
          if length js > 1 then Inr (Idxs js)
          else (case js of [] \<Rightarrow> Inl IndexError | j # _ \<Rightarrow> Inr (Idx j)))"

definition init :: "variant \<Rightarrow> ref \<Rightarrow> weight option \<Rightarrow> signal option \<Rightarrow> signal option
    \<Rightarrow> error + node" where
  \<comment> \<open>\<open>cls(variable, weight, ytr, mask)\<close>\<close>
  "init cls v w y m =
     ebind (init_variable v) (\<lambda>v'.
       Inr \<lparr>kind = cls, variable = v', weight = w, eval_tr = None, eval_ts = None,
            ytr = y, mask = m, fitness = None, fitness_vs = None, position = 0,
            nargs = class_nargs cls\<rparr>)"

definition tostore_Variable :: "node \<Rightarrow> error + node" where
  "tostore_Variable self =
     ebind (init (kind self) (variable self) (weight self) None None) (\<lambda>ins.
       Inr (ins\<lparr>position := position self, fitness := fitness self,
                 fitness_vs := fitness_vs self\<rparr>))"

definition tostore_Function :: "node \<Rightarrow> error + node" where
  "tostore_Function self =
     ebind (tostore_Variable self) (\<lambda>ins. Inr (ins\<lparr>nargs := nargs self\<rparr>))"

definition tostore :: "node \<Rightarrow> error + node" where
  "tostore self =
     (if kind self = Variable then tostore_Variable self else tostore_Function self)"

definition isfinite :: "node \<Rightarrow> error + bool" where
  \<comment> \<open>\<open>self.hy.isfinite()\<close> on an unset \<open>hy\<close> raises\<close>
  "isfinite self =
     (case hy self of
        None \<Rightarrow> Inl AttributeError
      | Some h \<Rightarrow>
          Inr (sig_isfinite h \<and>
               (case hy_test self of None \<Rightarrow> True | Some t \<Rightarrow> sig_isfinite t)))"

section \<open>The weight solver\<close>

subsection \<open>Linear systems\<close>

text \<open>
  \<open>np.linalg.solve\<close> belongs to numpy, not to the source.  It is taken here in exact
  arithmetic, as Gaussian elimination over the reals: it returns the solution of a
  square system, and raises \<open>LinAlgError\<close> (here \<open>None\<close>) when no pivot is found or
  the matrix is not square.  This is an idealisation: numpy eliminates in doubles and
  raises only when a rounded pivot is exactly zero, so it can return weights for a
  matrix that is singular; nothing below is read as a statement about which matrices
  the library rejects.  An equation is a row of coefficients with its right-hand side.
\<close>

type_synonym equation = "real list \<times> real"

definition dotr :: "real list \<Rightarrow> real list \<Rightarrow> real" where
  "dotr a b = sum_list (map2 (*) a b)"

fun lead :: "equation \<Rightarrow> real" where
  "lead ([], d) = 0"
| "lead (a # q, d) = a"

fun find_pivot :: "equation list \<Rightarrow> (equation \<times> equation list) option" where
  "find_pivot [] = None"
| "find_pivot (e # es) =
     (if lead e \<noteq> 0 then Some (e, es)
      else (case find_pivot es of
              None \<Rightarrow> None
            | Some (p, rest) \<Rightarrow> Some (p, e # rest)))"

definition eliminate :: "equation \<Rightarrow> equation \<Rightarrow> equation" where
  \<comment> \<open>subtract from \<open>e\<close> the multiple of the pivot equation that cancels its first unknown\<close>
  "eliminate p e =
     (let f = lead e / lead p
      in (map2 (\<lambda>x y. x - f * y) (tl (fst e)) (tl (fst p)), snd e - f * snd p))"

fun gauss :: "nat \<Rightarrow> equation list \<Rightarrow> real list option" where
  "gauss 0 es = Some []"
| "gauss (Suc n) es =
     (case find_pivot es of
        None \<Rightarrow> None
      | Some (p, rest) \<Rightarrow>
          (case gauss n (map (eliminate p) rest) of
             None \<Rightarrow> None
           | Some xs \<Rightarrow> Some ((snd p - dotr (tl (fst p)) xs) / lead p # xs)))"

definition square :: "real list list \<Rightarrow> real list \<Rightarrow> bool" where
  "square A b = (list_all (\<lambda>row. length row = length A) A \<and> length b = length A)"

definition solve :: "real list list \<Rightarrow> real list \<Rightarrow> real list option" where
  "solve A b = (if square A b then gauss (length A) (zip A b) else None)"

subsection \<open>compute_weight\<close>

definition mat_set :: "fnum list list \<Rightarrow> nat \<Rightarrow> nat \<Rightarrow> fnum \<Rightarrow> fnum list list" where
  \<comment> \<open>\<open>A[i, j] = v\<close>\<close>
  "mat_set A i j v = A[i := (A ! i)[j := v]]"

definition gram_cell :: "signal list \<Rightarrow> nat \<Rightarrow> nat \<Rightarrow> fnum list list \<Rightarrow> fnum list list" where
  \<comment> \<open>\<open>A[i, j] = (r[i] * r[j]).sum()\<close> and \<open>A[j, i] = A[i, j]\<close>\<close>
  "gram_cell r i j A =
     (let A1 = mat_set A i j (ssum (smul (r ! i) (r ! j)))
      in mat_set A1 j i (A1 ! i ! j))"

definition gram_row :: "signal list \<Rightarrow> nat \<Rightarrow> fnum list list \<Rightarrow> fnum list list" where
  \<comment> \<open>the inner loop, \<open>for j in range(i, len(r))\<close>\<close>
  "gram_row r i A = fold (gram_cell r i) [i..<length r] A"

definition gram_step :: "signal \<Rightarrow> nat \<Rightarrow> signal list \<times> fnum list list
    \<Rightarrow> signal list \<times> fnum list list" where
  \<comment> \<open>one turn of the outer loop: \<open>r[i] = r[i] * self._mask\<close>, then the inner loop\<close>
  "gram_step m i = (\<lambda>(r, A). let r' = r[i := smul (r ! i) m] in (r', gram_row r' i A))"

definition gram_loop :: "signal \<Rightarrow> signal list \<Rightarrow> signal list \<times> fnum list list" where
  \<comment> \<open>\<open>np.empty\<close> leaves the entries unset; every one of them is written by the loop\<close>
  "gram_loop m r =
     fold (gram_step m) [0..<length r]
          (r, replicate (length r) (replicate (length r) (Fin 0)))"

definition rhs :: "signal \<Rightarrow> signal list \<Rightarrow> fnum list" where
  \<comment> \<open>\<open>b = np.array(map(lambda f: (f * self._ytr).sum(), r))\<close>\<close>
  "rhs y r = map (\<lambda>f. ssum (smul f y)) r"

text \<open>
  The result is the returned coefficients (\<open>None\<close> for Python's \<open>None\<close>) and the list
  \<open>r\<close> as the call leaves it: \<open>r\<close> is the caller's list object and is assigned to.
  With an empty \<open>r\<close> neither \<open>self._ytr\<close> nor \<open>self._mask\<close> is used; otherwise
  an unset one makes the product raise.
\<close>

definition compute_weight :: "node \<Rightarrow> signal list \<Rightarrow> error + (fnum list option \<times> signal list)" where
  "compute_weight self r =
     (if r \<noteq> [] \<and> (ytr self = None \<or> mask self = None) then Inl TypeError
      else
        let y = (case ytr self of None \<Rightarrow> [] | Some y \<Rightarrow> y);
            m = (case mask self of None \<Rightarrow> [] | Some m \<Rightarrow> m);
            b = rhs y r;
            (r', A) = gram_loop m r
        in if \<not> mat_isfinite A \<or> \<not> sig_isfinite b then Inr (None, r')
           else (case solve (map (map the_fin) A) (map the_fin b) of
                   None \<Rightarrow> Inr (None, r')
                 | Some coef \<Rightarrow> Inr (Some (map Fin coef), r')))"

section \<open>Evaluation\<close>

text \<open>
  The unary transforms, the quotient and the ternary select are methods of Signal,
  which is not part of the source: they are parameters of the evaluation.
\<close>

record sigops =
  op_div :: "signal \<Rightarrow> signal \<Rightarrow> signal"
  op_unary :: "variant \<Rightarrow> signal \<Rightarrow> signal"
  op_if :: "signal \<Rightarrow> signal \<Rightarrow> signal \<Rightarrow> signal"

text \<open>
  An evaluation gives the returned flag, the node as the call leaves it and the
  regressor lists of the calls it made to \<open>compute_weight\<close>, in order.  A raise is
  \<open>Inl\<close>; the state at a raise is not kept.
\<close>

type_synonym outcome = "bool \<times> node \<times> signal list list"

definition child :: "node list \<Rightarrow> ref \<Rightarrow> error + node" where
  \<comment> \<open>\<open>X[self.variable]\<close>: a list is no index\<close>
  "child X v = (case v of Idx i \<Rightarrow> getitem X i | Idxs js \<Rightarrow> Inl TypeError)"

definition children :: "node list \<Rightarrow> ref \<Rightarrow> error + node list" where
  \<comment> \<open>\<open>map(lambda x: X[x], self.variable)\<close>: a number cannot be iterated\<close>
  "children X v = (case v of Idx i \<Rightarrow> Inl TypeError | Idxs js \<Rightarrow> map_err (getitem X) js)"

definition train :: "error \<Rightarrow> node \<Rightarrow> error + signal" where
  \<comment> \<open>the child's \<open>hy\<close>, used as a Signal: unset, the use raises \<open>e\<close>\<close>
  "train e c = (case hy c of None \<Rightarrow> Inl e | Some h \<Rightarrow> Inr h)"

definition test :: "error \<Rightarrow> node \<Rightarrow> error + signal" where
  "test e c = (case hy_test c of None \<Rightarrow> Inl e | Some h \<Rightarrow> Inr h)"

fun scale :: "signal \<Rightarrow> weight \<Rightarrow> error + signal" where
  \<comment> \<open>\<open>r * self.weight\<close>; an array of one number scales like the number\<close>
  "scale x (Scalar w) = Inr (sscale x w)"
| "scale x (Vector [w]) = Inr (sscale x w)"
| "scale x (Vector ws) = Inl TypeError"

definition whole :: "fnum list \<Rightarrow> error + weight" where
  \<comment> \<open>\<open>self.weight = w\<close>\<close>
  "whole w = Inr (Vector w)"

definition first :: "fnum list \<Rightarrow> error + weight" where
  \<comment> \<open>\<open>self.weight = w[0]\<close>\<close>
  "first w = (case w of [] \<Rightarrow> Inl IndexError | x # xs \<Rightarrow> Inr (Scalar x))"

text \<open>
  The block \<open>if self.weight is None: ...\<close> that every \<open>eval\<close> repeats: \<open>None\<close> stands
  for \<open>return False\<close>, otherwise the node and its weight after the block.
\<close>

definition fit :: "node \<Rightarrow> signal list \<Rightarrow> (fnum list \<Rightarrow> error + weight)
    \<Rightarrow> error + ((node \<times> weight) option \<times> signal list list)" where
  "fit self regs store =
     (case weight self of
        Some w \<Rightarrow> Inr (Some (self, w), [])
      | None \<Rightarrow>
          ebind (compute_weight self regs) (\<lambda>(res, r').
            case res of
              None \<Rightarrow> Inr (None, [regs])
            | Some w \<Rightarrow> ebind (store w) (\<lambda>w'. Inr (Some (self\<lparr>weight := Some w'\<rparr>, w'), [regs]))))"

definition eval_Variable :: "node list \<Rightarrow> node \<Rightarrow> error + outcome" where
  "eval_Variable X self =
     ebind (child X (variable self)) (\<lambda>c.
     ebind (train TypeError c) (\<lambda>x.
     ebind (fit self [x] whole) (\<lambda>(fitted, calls).
       case fitted of
         None \<Rightarrow> Inr (False, self, calls)
       | Some (self1, w) \<Rightarrow>
           ebind (scale x w) (\<lambda>h.
             let self2 = self1\<lparr>eval_tr := Some h\<rparr> in
             case hy_test c of
               None \<Rightarrow> Inr (True, self2, calls)
             | Some xtest \<Rightarrow>
                 ebind (scale xtest w) (\<lambda>ht.
                   Inr (True, self2\<lparr>eval_ts := Some ht\<rparr>, calls))))))"

fun cumsum :: "signal list \<Rightarrow> error + signal" where
  "cumsum [] = Inl IndexError"
| "cumsum (a # r) = Inr (foldl sadd a r)"

fun cumprod :: "signal list \<Rightarrow> error + signal" where
  "cumprod [] = Inl IndexError"
| "cumprod (a # r) = Inr (foldl smul a r)"

definition weighted :: "(node \<Rightarrow> error + signal) \<Rightarrow> node list \<Rightarrow> weight \<Rightarrow> error + signal list" where
  \<comment> \<open>\<open>map(lambda (v, w): v.hy * w, zip(X, self.weight))\<close>: a number cannot be zipped\<close>
  "weighted sig X w =
     (case w of
        Scalar a \<Rightarrow> Inl TypeError
      | Vector ws \<Rightarrow> map_err (\<lambda>(v, a). ebind (sig v) (\<lambda>h. Inr (sscale h a))) (zip X ws))"

definition eval_Add :: "node list \<Rightarrow> node \<Rightarrow> error + outcome" where
  "eval_Add X0 self =
     ebind (children X0 (variable self)) (\<lambda>X.
     ebind (case weight self of
              Some w \<Rightarrow> Inr (Some (self, w), [])
            | None \<Rightarrow> ebind (map_err (train TypeError) X) (\<lambda>regs. fit self regs whole))
       (\<lambda>(fitted, calls).
       case fitted of
         None \<Rightarrow> Inr (False, self, calls)
       | Some (self1, w) \<Rightarrow>
           ebind (weighted (train TypeError) X w) (\<lambda>r.
           ebind (cumsum r) (\<lambda>r.
             let self2 = self1\<lparr>eval_tr := Some r\<rparr> in
             ebind (getitem X 0) (\<lambda>c0.
               case hy_test c0 of
                 None \<Rightarrow> Inr (True, self2, calls)
               | Some t \<Rightarrow>
                   ebind (weighted (test TypeError) X w) (\<lambda>r.
                   ebind (cumsum r) (\<lambda>r.
                     Inr (True, self2\<lparr>eval_ts := Some r\<rparr>, calls))))))))"

definition eval_Mul :: "node list \<Rightarrow> node \<Rightarrow> error + outcome" where
  "eval_Mul X0 self =
     ebind (children X0 (variable self)) (\<lambda>X.
     ebind (map_err (train TypeError) X) (\<lambda>hs.
     ebind (cumprod hs) (\<lambda>r.
     ebind (fit self [r] first) (\<lambda>(fitted, calls).
       case fitted of
         None \<Rightarrow> Inr (False, self, calls)
       | Some (self1, w) \<Rightarrow>
           ebind (scale r w) (\<lambda>h.
             let self2 = self1\<lparr>eval_tr := Some h\<rparr> in
             ebind (getitem X 0) (\<lambda>c0.
               case hy_test c0 of
                 None \<Rightarrow> Inr (True, self2, calls)
               | Some t \<Rightarrow>
                   ebind (map_err (test TypeError) X) (\<lambda>ts.
                   ebind (cumprod ts) (\<lambda>r.
                   ebind (scale r w) (\<lambda>ht.
                     Inr (True, self2\<lparr>eval_ts := Some ht\<rparr>, calls))))))))))"

definition subscript :: "ref \<Rightarrow> int \<Rightarrow> error + int" where
  \<comment> \<open>\<open>self.variable[k]\<close>: a number has no items\<close>
  "subscript v k = (case v of Idx i \<Rightarrow> Inl TypeError | Idxs js \<Rightarrow> getitem js k)"

definition eval_Div :: "sigops \<Rightarrow> node list \<Rightarrow> node \<Rightarrow> error + outcome" where
  "eval_Div ops X self =
     ebind (subscript (variable self) 0) (\<lambda>i.
     ebind (getitem X i) (\<lambda>a.
     ebind (subscript (variable self) 1) (\<lambda>j.
     ebind (getitem X j) (\<lambda>b.
     ebind (train TypeError a) (\<lambda>ha.
     ebind (train TypeError b) (\<lambda>hb.
       let r = op_div ops ha hb in
       ebind (fit self [r] first) (\<lambda>(fitted, calls).
         case fitted of
           None \<Rightarrow> Inr (False, self, calls)
         | Some (self1, w) \<Rightarrow>
             ebind (scale r w) (\<lambda>h.
               let self2 = self1\<lparr>eval_tr := Some h\<rparr> in
               ebind (getitem X 0) (\<lambda>x0.
                 case hy_test x0 of
                   None \<Rightarrow> Inr (True, self2, calls)
                 | Some t \<Rightarrow>
                     ebind (test TypeError a) (\<lambda>ta.
                     ebind (test TypeError b) (\<lambda>tb.
                     ebind (scale (op_div ops ta tb) w) (\<lambda>ht.
                       Inr (True, self2\<lparr>eval_ts := Some ht\<rparr>, calls)))))))))))))"

text \<open>
  Fabs, Exp, Sqrt, Sin, Cos, Ln, Sq and Sigmoid have the same \<open>eval\<close> but for the
  method of Signal they call, here \<open>f\<close>.
\<close>

definition eval_unary :: "(signal \<Rightarrow> signal) \<Rightarrow> node list \<Rightarrow> node \<Rightarrow> error + outcome" where
  "eval_unary f X0 self =
     ebind (child X0 (variable self)) (\<lambda>X.
     ebind (train AttributeError X) (\<lambda>x.
       let r = f x in
       ebind (fit self [r] first) (\<lambda>(fitted, calls).
         case fitted of
           None \<Rightarrow> Inr (False, self, calls)
         | Some (self1, w) \<Rightarrow>
             ebind (scale r w) (\<lambda>h.
               let self2 = self1\<lparr>eval_tr := Some h\<rparr> in
               case hy_test X of
                 None \<Rightarrow> Inr (True, self2, calls)
               | Some xt \<Rightarrow>
                   ebind (scale (f xt) w) (\<lambda>ht.
                     Inr (True, self2\<lparr>eval_ts := Some ht\<rparr>, calls))))))"

definition unpack3 :: "'a list \<Rightarrow> error + ('a \<times> 'a \<times> 'a)" where
  \<comment> \<open>\<open>a, b, c = X\<close>\<close>
  "unpack3 xs = (case xs of [a, b, c] \<Rightarrow> Inr (a, b, c) | _ \<Rightarrow> Inl ValueError)"

definition eval_If :: "sigops \<Rightarrow> node list \<Rightarrow> node \<Rightarrow> error + outcome" where
  "eval_If ops X0 self =
     ebind (children X0 (variable self)) (\<lambda>X.
     ebind (unpack3 X) (\<lambda>(a, b, c).
     ebind (train AttributeError a) (\<lambda>ha.
     ebind (train TypeError b) (\<lambda>hb.
     ebind (train TypeError c) (\<lambda>hc.
       let r = op_if ops ha hb hc in
       ebind (fit self [r] first) (\<lambda>(fitted, calls).
         case fitted of
           None \<Rightarrow> Inr (False, self, calls)
         | Some (self1, w) \<Rightarrow>
             ebind (scale r w) (\<lambda>h.
               let self2 = self1\<lparr>eval_tr := Some h\<rparr> in
               case hy_test a of
                 None \<Rightarrow> Inr (True, self2, calls)
               | Some ta \<Rightarrow>
                   ebind (test TypeError b) (\<lambda>tb.
                   ebind (test TypeError c) (\<lambda>tc.
                   ebind (scale (op_if ops ta tb tc) w) (\<lambda>ht.
                     Inr (True, self2\<lparr>eval_ts := Some ht\<rparr>, calls)))))))))))"

definition eval :: "sigops \<Rightarrow> node list \<Rightarrow> node \<Rightarrow> error + outcome" where
  "eval ops X self =
     (case kind self of
        Variable \<Rightarrow> eval_Variable X self
      | Add \<Rightarrow> eval_Add X self
      | Mul \<Rightarrow> eval_Mul X self
      | Div \<Rightarrow> eval_Div ops X self
      | If_node \<Rightarrow> eval_If ops X self
      | k \<Rightarrow> eval_unary (op_unary ops k) X self)"

section \<open>Auxiliary notions for the proofs\<close>

text \<open>The shape of a \<open>k\<close> by \<open>k\<close> array.\<close>

definition dims :: "nat \<Rightarrow> fnum list list \<Rightarrow> bool" where
  "dims k A = (length A = k \<and> (\<forall>a<k. length (A ! a) = k))"

text \<open>
  The entry that the loop of \<open>compute_weight\<close> leaves at \<open>A[i, j]\<close>: turn
  \<open>min i j\<close> of the outer loop writes it, when the regressors up to that one are
  masked and the later ones are not yet.
\<close>

definition gram_entry :: "signal \<Rightarrow> signal list \<Rightarrow> nat \<Rightarrow> nat \<Rightarrow> fnum" where
  "gram_entry m r i j =
     (let lo = min i j; hi = max i j
      in ssum (smul (smul (r ! lo) m) (if lo = hi then smul (r ! lo) m else r ! hi)))"

text \<open>The state of the outer loop after \<open>n\<close> turns.\<close>

definition gram_inv :: "signal \<Rightarrow> signal list \<Rightarrow> nat \<Rightarrow> signal list \<times> fnum list list \<Rightarrow> bool" where
  "gram_inv m r n s =
     (length (fst s) = length r \<and>
      (\<forall>i<length r. fst s ! i = (if i < n then smul (r ! i) m else r ! i)) \<and>
      dims (length r) (snd s) \<and>
      (\<forall>a<length r. \<forall>b<length r. min a b < n \<longrightarrow> snd s ! a ! b = gram_entry m r a b))"

text \<open>
  What one evaluation leaves behind: on success the weight and \<open>hy\<close> are set, a weight
  that was set is kept and no solver call is made, an unset one comes from the single
  solver call; on \<open>return False\<close> the node is as before and the single solver call
  gave \<open>None\<close>.
\<close>

definition settled :: "node \<Rightarrow> outcome \<Rightarrow> bool" where
  "settled self out =
     (case out of (ok, self', calls) \<Rightarrow>
        if ok then
          (\<exists>w h. weight self' = Some w \<and> hy self' = Some h \<and>
             kind self' = kind self \<and> variable self' = variable self \<and>
             ytr self' = ytr self \<and> mask self' = mask self \<and>
             (case weight self of
                Some w0 \<Rightarrow> w = w0 \<and> calls = []
              | None \<Rightarrow> \<exists>regs cf r'. calls = [regs] \<and> compute_weight self regs = Inr (Some cf, r')))
        else self' = self \<and> weight self = None \<and>
             (\<exists>regs r'. calls = [regs] \<and> compute_weight self regs = Inr (None, r')))"

section \<open>Example data\<close>

text \<open>
  A context entry holding a training signal and possibly a test signal, a node as its
  constructor leaves it with target and mask given, and one choice of Signal methods.
\<close>

definition feature :: "signal \<Rightarrow> signal option \<Rightarrow> node" where
  "feature tr ts =
     \<lparr>kind = Variable, variable = Idx 0, weight = None, eval_tr = Some tr, eval_ts = ts,
      ytr = None, mask = None, fitness = None, fitness_vs = None, position = 0,
      nargs = None\<rparr>"

definition fresh :: "variant \<Rightarrow> ref \<Rightarrow> weight option \<Rightarrow> signal \<Rightarrow> signal \<Rightarrow> node" where
  "fresh cls v w y m =
     \<lparr>kind = cls, variable = v, weight = w, eval_tr = None, eval_ts = None,
      ytr = Some y, mask = Some m, fitness = None, fitness_vs = None, position = 0,
      nargs = class_nargs cls\<rparr>"

definition plain_ops :: sigops where
  "plain_ops = \<lparr>op_div = (\<lambda>a b. a), op_unary = (\<lambda>k a. a), op_if = (\<lambda>a b c. b)\<rparr>"

section \<open>Nodes as the constructor leaves them\<close>

text \<open>
  \<open>__init__\<close> stores a list of two or more indices as it is and a list of one index as
  that index; \<open>constructed\<close> says that \<open>variable\<close> has this form, which
  \<open>__init__\<close> would leave unchanged.
\<close>

definition constructed :: "node \<Rightarrow> bool" where
  "constructed self = (init_variable (variable self) = Inr (variable self))"

section \<open>Notions of linear algebra\<close>

text \<open>
  A square matrix is singular when some vector other than zero is sent to zero by
  every row: then no system with this matrix has exactly one solution.
\<close>

definition singular :: "real list list \<Rightarrow> bool" where
  "singular A =
     (\<exists>v. length v = length A \<and> v \<noteq> replicate (length A) 0 \<and> (\<forall>row\<in>set A. dotr row v = 0))"

text \<open>Every equation of the list has \<open>n\<close> coefficients.\<close>

definition rows_of :: "nat \<Rightarrow> equation list \<Rightarrow> bool" where
  "rows_of n es = (\<forall>e\<in>set es. length (fst e) = n)"

section \<open>The system of the specification\<close>

text \<open>
  The product of a matrix and a vector, and the linear system as the specification
  words it: \<open>A[i, j] = dot(m * r_i, m * r_j)\<close> and \<open>b[i] = dot(m * r_i, ytr)\<close>, both
  from the masked regressors.  They are compared below with what the code builds.
\<close>

definition mat_vec :: "fnum list list \<Rightarrow> fnum list \<Rightarrow> fnum list" where
  "mat_vec A w = map (\<lambda>row. ssum (smul row w)) A"

definition masked_gram :: "signal \<Rightarrow> signal list \<Rightarrow> fnum list list" where
  "masked_gram m r = map (\<lambda>ri. map (\<lambda>rj. ssum (smul (smul ri m) (smul rj m))) r) r"

definition masked_rhs :: "signal \<Rightarrow> signal \<Rightarrow> signal list \<Rightarrow> fnum list" where
  "masked_rhs m y r = map (\<lambda>ri. ssum (smul (smul ri m) y)) r"

section \<open>The loop of compute_weight\<close>

lemma mat_set_nth:
  "i < length A \<Longrightarrow> j < length (A ! i) \<Longrightarrow>
   mat_set A i j v ! a ! b = (if a = i \<and> b = j then v else A ! a ! b)"
  by (simp add: mat_set_def nth_list_update)

lemma dims_mat_set: "dims k A \<Longrightarrow> dims k (mat_set A i j v)"
  unfolding dims_def mat_set_def
  by (cases "i < length A") (simp_all add: nth_list_update)

lemma gram_cell_dims: "dims k A \<Longrightarrow> dims k (gram_cell r i j A)"
  unfolding gram_cell_def Let_def by (intro dims_mat_set)

lemma if_or_same: "(if P then v else if Q then v else x) = (if Q \<or> P then v else x)"
  by (cases P; cases Q; simp)

lemma pair_min_max:
  "i \<le> j \<Longrightarrow> ((a = i \<and> b = j) \<or> (a = j \<and> b = i)) = (min a b = i \<and> max a b = (j::nat))"
  by arith

lemma gram_cell_nth:
  assumes "dims k A" "i \<le> j" "j < k"
  shows "gram_cell r i j A ! a ! b =
     (if min a b = i \<and> max a b = j then ssum (smul (r ! i) (r ! j)) else A ! a ! b)"
proof -
  let ?v = "ssum (smul (r ! i) (r ! j))"
  let ?A1 = "mat_set A i j ?v"
  have l0: "i < length A" "j < length (A ! i)"
    using assms by (simp_all add: dims_def)
  have d1: "dims k ?A1" using assms(1) by (rule dims_mat_set)
  have l1: "j < length ?A1" "i < length (?A1 ! j)"
    using d1 assms by (simp_all add: dims_def)
  have c: "?A1 ! i ! j = ?v" by (simp add: mat_set_nth[OF l0])
  have "gram_cell r i j A ! a ! b = mat_set ?A1 j i ?v ! a ! b"
    unfolding gram_cell_def Let_def c ..
  also have "\<dots> = (if a = j \<and> b = i then ?v else ?A1 ! a ! b)"
    by (rule mat_set_nth[OF l1])
  also have "\<dots> = (if a = j \<and> b = i then ?v else if a = i \<and> b = j then ?v else A ! a ! b)"
    unfolding mat_set_nth[OF l0] ..
  also have "\<dots> = (if (a = i \<and> b = j) \<or> (a = j \<and> b = i) then ?v else A ! a ! b)"
    by (rule if_or_same)
  finally show ?thesis unfolding pair_min_max[OF assms(2)] .
qed

lemma gram_fold_dims: "dims k A \<Longrightarrow> dims k (fold (gram_cell r i) js A)"
  by (induction js arbitrary: A) (simp_all add: gram_cell_dims)

lemma gram_fold_nth:
  "dims k A \<Longrightarrow> \<forall>j\<in>set js. i \<le> j \<and> j < k \<Longrightarrow>
   fold (gram_cell r i) js A ! a ! b =
     (if min a b = i \<and> max a b \<in> set js then ssum (smul (r ! i) (r ! max a b))
      else A ! a ! b)"
proof (induction js arbitrary: A)
  case Nil
  then show ?case by simp
next
  case (Cons j js)
  have jk: "i \<le> j" "j < k" and rest: "\<forall>j\<in>set js. i \<le> j \<and> j < k"
    using Cons.prems(2) by simp_all
  have d1: "dims k (gram_cell r i j A)" using Cons.prems(1) by (rule gram_cell_dims)
  have "fold (gram_cell r i) (j # js) A ! a ! b = fold (gram_cell r i) js (gram_cell r i j A) ! a ! b"
    by simp
  also have "\<dots> = (if min a b = i \<and> max a b \<in> set js then ssum (smul (r ! i) (r ! max a b))
      else gram_cell r i j A ! a ! b)"
    by (rule Cons.IH[OF d1 rest])
  finally show ?case
    unfolding gram_cell_nth[OF Cons.prems(1) jk]
    by (cases "min a b = i"; cases "max a b = j"; simp)
qed

lemma gram_row_dims: "dims k A \<Longrightarrow> dims k (gram_row r i A)"
  unfolding gram_row_def by (rule gram_fold_dims)

lemma gram_row_nth:
  assumes "dims (length r) A" "a < length r" "b < length r"
  shows "gram_row r i A ! a ! b =
     (if min a b = i then ssum (smul (r ! i) (r ! max a b)) else A ! a ! b)"
proof -
  have "\<forall>j\<in>set [i..<length r]. i \<le> j \<and> j < length r" by simp
  from gram_fold_nth[OF assms(1) this]
  have "gram_row r i A ! a ! b =
     (if min a b = i \<and> max a b \<in> set [i..<length r] then ssum (smul (r ! i) (r ! max a b))
      else A ! a ! b)"
    unfolding gram_row_def .
  moreover have "min a b = i \<Longrightarrow> max a b \<in> set [i..<length r]"
    using assms(2,3) by auto
  ultimately show ?thesis by auto
qed

lemma dims_replicate: "dims k (replicate k (replicate k v))"
  by (simp add: dims_def)

lemma gram_inv_0: "gram_inv m r 0 (r, replicate (length r) (replicate (length r) (Fin 0)))"
  by (simp add: gram_inv_def dims_replicate)

lemma gram_inv_step:
  assumes inv: "gram_inv m r n s" and n: "n < length r"
  shows "gram_inv m r (Suc n) (gram_step m n s)"
proof -
  obtain R A where s: "s = (R, A)" by (cases s)
  let ?R = "R[n := smul (R ! n) m]"
  have lR: "length R = length r"
    and R: "\<And>i. i < length r \<Longrightarrow> R ! i = (if i < n then smul (r ! i) m else r ! i)"
    and dA: "dims (length r) A"
    and A: "\<And>a b. a < length r \<Longrightarrow> b < length r \<Longrightarrow> min a b < n \<Longrightarrow> A ! a ! b = gram_entry m r a b"
    using inv by (simp_all add: gram_inv_def s)
  have step: "gram_step m n s = (?R, gram_row ?R n A)"
    by (simp add: gram_step_def s Let_def)
  have lR': "length ?R = length r" using lR by simp
  have R': "?R ! i = (if i < Suc n then smul (r ! i) m else r ! i)" if "i < length r" for i
  proof (cases "i = n")
    case True
    then show ?thesis using n lR R[OF n] by simp
  next
    case False
    then show ?thesis using that R[OF that] by (simp add: less_Suc_eq)
  qed
  have dA': "dims (length r) (gram_row ?R n A)"
    using dA by (rule gram_row_dims)
  have dA2: "dims (length ?R) A" using dA lR' by simp
  have A': "gram_row ?R n A ! a ! b = gram_entry m r a b"
    if a: "a < length r" and b: "b < length r" and lt: "min a b < Suc n" for a b
  proof -
    have e: "gram_row ?R n A ! a ! b =
        (if min a b = n then ssum (smul (?R ! n) (?R ! max a b)) else A ! a ! b)"
      using gram_row_nth[OF dA2, of a b n] a b lR' by simp
    show ?thesis
    proof (cases "min a b = n")
      case True
      have mx: "max a b < length r" using a b by simp
      have "?R ! n = smul (r ! n) m" using R'[OF n] by simp
      moreover have "?R ! max a b = (if n = max a b then smul (r ! n) m else r ! max a b)"
        using R'[OF mx] True by (auto simp: less_Suc_eq)
      ultimately show ?thesis using e True by (simp add: gram_entry_def Let_def)
    next
      case False
      then have "min a b < n" using lt by simp
      then show ?thesis using e False A[OF a b] by simp
    qed
  qed
  show ?thesis
    unfolding step gram_inv_def fst_conv snd_conv
    using lR' R' dA' A' by blast
qed

lemma gram_inv_fold:
  "n \<le> length r \<Longrightarrow>
   gram_inv m r n (fold (gram_step m) [0..<n] (r, replicate (length r) (replicate (length r) (Fin 0))))"
proof (induction n)
  case 0
  then show ?case by (simp add: gram_inv_0)
next
  case (Suc n)
  then show ?case by (simp add: gram_inv_step)
qed

lemma gram_loop_inv: "gram_inv m r (length r) (gram_loop m r)"
  unfolding gram_loop_def by (rule gram_inv_fold) simp

lemma gram_loop_fst: "fst (gram_loop m r) = map (\<lambda>x. smul x m) r"
proof (rule nth_equalityI)
  show "length (fst (gram_loop m r)) = length (map (\<lambda>x. smul x m) r)"
    using gram_loop_inv[of m r] by (simp add: gram_inv_def)
next
  fix i assume "i < length (fst (gram_loop m r))"
  then have "i < length r" using gram_loop_inv[of m r] by (simp add: gram_inv_def)
  then show "fst (gram_loop m r) ! i = map (\<lambda>x. smul x m) r ! i"
    using gram_loop_inv[of m r] by (simp add: gram_inv_def)
qed

lemma gram_loop_dims: "dims (length r) (snd (gram_loop m r))"
  using gram_loop_inv[of m r] by (simp add: gram_inv_def)

lemma gram_loop_nth:
  "a < length r \<Longrightarrow> b < length r \<Longrightarrow> snd (gram_loop m r) ! a ! b = gram_entry m r a b"
  using gram_loop_inv[of m r] by (simp add: gram_inv_def)

text \<open>
  Claim C10: \<open>compute_weight\<close> assigns to the list it is given.  A call on a node
  whose target and mask are set returns, with a solution or with \<open>None\<close>, and leaves
  every entry \<open>r[i]\<close> of the caller's list replaced by \<open>r[i] * mask\<close>.
\<close>

theorem compute_weight_masks_regressors:
  assumes "ytr self = Some y" and "mask self = Some m"
  shows "\<exists>res. compute_weight self r = Inr (res, map (\<lambda>x. smul x m) r)"
proof -
  obtain R A where g: "gram_loop m r = (R, A)" by (cases "gram_loop m r")
  have R: "R = map (\<lambda>x. smul x m) r" using gram_loop_fst[of m r] g by simp
  show ?thesis
    unfolding compute_weight_def using assms g R
    by (simp add: Let_def split: option.split)
qed

theorem compute_weight_masks_regressors_witness:
  "\<exists>res. compute_weight
     \<lparr>kind = Variable, variable = Idx 0, weight = None, eval_tr = None, eval_ts = None,
      ytr = Some [Fin 1, Fin 1], mask = Some [Fin 1, Fin 0], fitness = None,
      fitness_vs = None, position = 0, nargs = None\<rparr>
     [[Fin 0, Fin 3], [Fin 2, Fin 5]]
   = Inr (res, [[Fin 0, Fin 0], [Fin 2, Fin 0]])"
  using compute_weight_masks_regressors
    [of "\<lparr>kind = Variable, variable = Idx 0, weight = None, eval_tr = None, eval_ts = None,
      ytr = Some [Fin 1, Fin 1], mask = Some [Fin 1, Fin 0], fitness = None,
      fitness_vs = None, position = 0, nargs = None\<rparr>"
        "[Fin 1, Fin 1]" "[Fin 1, Fin 0]" "[[Fin 0, Fin 3], [Fin 2, Fin 5]]"]
  by (simp add: smul_def)

section \<open>What an evaluation leaves behind\<close>

lemma fit_cases:
  assumes "fit self regs store = Inr (res, calls)"
  shows "(case weight self of
            Some w0 \<Rightarrow> res = Some (self, w0) \<and> calls = []
          | None \<Rightarrow> calls = [regs] \<and>
              (case res of
                 None \<Rightarrow> \<exists>r'. compute_weight self regs = Inr (None, r')
               | Some (s1, w) \<Rightarrow> s1 = self\<lparr>weight := Some w\<rparr> \<and>
                   (\<exists>cf r'. compute_weight self regs = Inr (Some cf, r') \<and> store cf = Inr w)))"
  using assms unfolding fit_def ebind_def
  by (auto split: option.splits sum.splits prod.splits)

lemma settled_Variable:
  assumes "eval_Variable X self = Inr out"
  shows "settled self out"
  using assms unfolding eval_Variable_def settled_def ebind_def Let_def
  by (auto split: option.splits sum.splits prod.splits dest!: fit_cases)

lemma settled_Add:
  assumes "eval_Add X self = Inr out"
  shows "settled self out"
  using assms unfolding eval_Add_def settled_def ebind_def Let_def
  by (auto split: option.splits sum.splits prod.splits dest!: fit_cases)

lemma settled_Mul:
  assumes "eval_Mul X self = Inr out"
  shows "settled self out"
  using assms unfolding eval_Mul_def settled_def ebind_def Let_def
  by (auto split: option.splits sum.splits prod.splits dest!: fit_cases)

lemma settled_Div:
  assumes "eval_Div ops X self = Inr out"
  shows "settled self out"
  using assms unfolding eval_Div_def settled_def ebind_def Let_def
  by (auto split: option.splits sum.splits prod.splits dest!: fit_cases)

lemma settled_unary:
  assumes "eval_unary f X self = Inr out"
  shows "settled self out"
  using assms unfolding eval_unary_def settled_def ebind_def Let_def
  by (auto split: option.splits sum.splits prod.splits dest!: fit_cases)

lemma settled_If:
  assumes "eval_If ops X self = Inr out"
  shows "settled self out"
  using assms unfolding eval_If_def settled_def ebind_def Let_def
  by (auto split: option.splits sum.splits prod.splits dest!: fit_cases)

lemma settled_eval:
  assumes "eval ops X self = Inr out"
  shows "settled self out"
  using assms unfolding eval_def
  by (cases "kind self")
     (simp_all add: settled_Variable settled_Add settled_Mul settled_Div settled_unary settled_If)

text \<open>
  Claim C4: on a node whose weight is unset, \<open>eval\<close> calls the solver once; when the
  solver gives no solution, \<open>eval\<close> returns failure and the node is exactly as it was
  (weight and \<open>hy\<close> as before, so unset on a new node); when it gives one, \<open>eval\<close>
  succeeds and both weight and \<open>hy\<close> are set.
\<close>

theorem eval_failure_is_atomic:
  assumes "weight self = None" and "eval ops X self = Inr (ok, self', calls)"
  shows "\<exists>regs res r'. calls = [regs] \<and> compute_weight self regs = Inr (res, r') \<and>
           (res = None \<longrightarrow> \<not> ok \<and> self' = self) \<and>
           (res \<noteq> None \<longrightarrow> ok \<and> weight self' \<noteq> None \<and> hy self' \<noteq> None)"
proof (cases ok)
  case True
  then obtain w h regs cf r' where "weight self' = Some w" "hy self' = Some h"
      "calls = [regs]" "compute_weight self regs = Inr (Some cf, r')"
    using settled_eval[OF assms(2)] assms(1) by (auto simp: settled_def)
  then show ?thesis using True by auto
next
  case False
  then obtain regs r' where "self' = self" "calls = [regs]"
      "compute_weight self regs = Inr (None, r')"
    using settled_eval[OF assms(2)] by (auto simp: settled_def)
  then show ?thesis using False by auto
qed

theorem eval_failure_is_atomic_witness:
  "eval plain_ops [feature [Fin 0, Fin 0] None]
        (fresh Variable (Idx 0) None [Fin 1, Fin 1] [Fin 1, Fin 1])
     = Inr (False, fresh Variable (Idx 0) None [Fin 1, Fin 1] [Fin 1, Fin 1], [[[Fin 0, Fin 0]]])
   \<and> (\<exists>r'. compute_weight (fresh Variable (Idx 0) None [Fin 1, Fin 1] [Fin 1, Fin 1])
              [[Fin 0, Fin 0]] = Inr (None, r'))"
proof -
  let ?n = "fresh Variable (Idx 0) None [Fin 1, Fin 1] [Fin 1, Fin 1]"
  have w: "weight ?n = None" by (simp add: fresh_def)
  have e: "eval plain_ops [feature [Fin 0, Fin 0] None] ?n = Inr (False, ?n, [[[Fin 0, Fin 0]]])"
    by code_simp
  from eval_failure_is_atomic[OF w e] e show ?thesis by auto
qed

text \<open>
  Claim C9: after a successful evaluation \<open>hy\<close> is set, and \<open>isfinite\<close> returns
  true exactly when every entry of \<open>hy\<close> is finite and, if \<open>hy_test\<close> is present,
  every entry of \<open>hy_test\<close> is finite.
\<close>

theorem isfinite_after_eval:
  assumes "eval ops X self = Inr (True, self', calls)"
  shows "\<exists>h. hy self' = Some h \<and>
           isfinite self' =
             Inr ((\<forall>x\<in>set h. isfin x) \<and> (\<forall>t. hy_test self' = Some t \<longrightarrow> (\<forall>x\<in>set t. isfin x)))"
proof -
  obtain h where h: "hy self' = Some h"
    using settled_eval[OF assms] by (auto simp: settled_def)
  show ?thesis
    using h by (auto simp: isfinite_def sig_isfinite_def list_all_iff split: option.splits)
qed

theorem isfinite_after_eval_witness:
  "isfinite ((fresh Variable (Idx 0) (Some (Vector [Fin 1])) [Fin 1, Fin 2] [Fin 1, Fin 1])
        \<lparr>eval_tr := Some [Fin 1, Fin 2], eval_ts := Some [Fin 3]\<rparr>) = Inr True"
proof -
  let ?n = "fresh Variable (Idx 0) None [Fin 1, Fin 2] [Fin 1, Fin 1]"
  let ?n' = "(fresh Variable (Idx 0) (Some (Vector [Fin 1])) [Fin 1, Fin 2] [Fin 1, Fin 1])
        \<lparr>eval_tr := Some [Fin 1, Fin 2], eval_ts := Some [Fin 3]\<rparr>"
  have e: "eval plain_ops [feature [Fin 1, Fin 2] (Some [Fin 3])] ?n = Inr (True, ?n', [[[Fin 1, Fin 2]]])"
    by code_simp
  from isfinite_after_eval[OF e] show ?thesis by (simp add: fresh_def)
qed

section \<open>Snapshots\<close>

lemma init_constructed: "init cls v w y m = Inr n \<Longrightarrow> constructed n"
  unfolding init_def constructed_def init_variable_def ebind_def
  by (auto split: ref.splits if_splits list.splits)

lemma tostore_constructed:
  assumes "constructed self"
  shows "tostore self =
     Inr \<lparr>kind = kind self, variable = variable self, weight = weight self,
          eval_tr = None, eval_ts = None, ytr = None, mask = None,
          fitness = fitness self, fitness_vs = fitness_vs self, position = position self,
          nargs = (if kind self = Variable then None else nargs self)\<rparr>"
  using assms
  unfolding constructed_def tostore_def tostore_Function_def tostore_Variable_def init_def
  by (simp add: ebind_def)

text \<open>
  Claim C7: \<open>tostore\<close> returns a new node of the same variant that carries the child
  references, the weight, the position, \<open>fitness\<close> and \<open>fitness_vs\<close> of the
  original, and \<open>nargs\<close> for a Function variant; its \<open>hy\<close>, \<open>hy_test\<close>,
  training target and mask are unset.  The node is one whose \<open>variable\<close> is as the
  constructor stores it.
\<close>

theorem tostore_keeps_structure_only:
  assumes "constructed self"
  shows "\<exists>ins. tostore self = Inr ins \<and> kind ins = kind self \<and>
           variable ins = variable self \<and> weight ins = weight self \<and>
           position ins = position self \<and> fitness ins = fitness self \<and>
           fitness_vs ins = fitness_vs self \<and>
           (kind self \<noteq> Variable \<longrightarrow> nargs ins = nargs self) \<and>
           hy ins = None \<and> hy_test ins = None \<and> ytr ins = None \<and> mask ins = None"
  using tostore_constructed[OF assms] by simp

theorem tostore_keeps_structure_only_witness:
  "\<exists>ins. tostore ((fresh Add (Idxs [0, 1]) (Some (Vector [Fin 2, Fin 3])) [Fin 1] [Fin 1])
                     \<lparr>eval_tr := Some [Fin 5], eval_ts := Some [Fin 7], fitness := Some 4,
                      position := 3, nargs := Some 2\<rparr>) = Inr ins \<and>
         kind ins = Add \<and> variable ins = Idxs [0, 1] \<and>
         weight ins = Some (Vector [Fin 2, Fin 3]) \<and> position ins = 3 \<and>
         fitness ins = Some 4 \<and> nargs ins = Some 2 \<and>
         hy ins = None \<and> hy_test ins = None \<and> ytr ins = None \<and> mask ins = None"
  using tostore_keeps_structure_only
    [of "(fresh Add (Idxs [0, 1]) (Some (Vector [Fin 2, Fin 3])) [Fin 1] [Fin 1])
                     \<lparr>eval_tr := Some [Fin 5], eval_ts := Some [Fin 7], fitness := Some 4,
                      position := 3, nargs := Some 2\<rparr>"]
  by (auto simp: constructed_def init_variable_def fresh_def)

section \<open>The shape of a fitted weight\<close>

text \<open>
  After a fresh fit the weight of a Variable or an Add is the whole array returned by
  the solver; every other variant keeps its first component.
\<close>

lemma first_Scalar: "first cf = Inr w \<Longrightarrow> \<exists>x. w = Scalar x"
  by (auto simp: first_def split: list.splits)

lemma fresh_fit_shape:
  assumes "weight self = None" and "eval ops X self = Inr (True, self', calls)"
  shows "if kind self = Variable \<or> kind self = Add
         then \<exists>w. weight self' = Some (Vector w)
         else \<exists>x. weight self' = Some (Scalar x)"
proof (cases "kind self")
  case Variable
  then show ?thesis using assms
    unfolding eval_def eval_Variable_def ebind_def Let_def whole_def
    by (auto split: option.splits sum.splits prod.splits dest!: fit_cases)
next
  case Add
  then show ?thesis using assms
    unfolding eval_def eval_Add_def ebind_def Let_def whole_def
    by (auto split: option.splits sum.splits prod.splits dest!: fit_cases)
next
  case Mul
  then show ?thesis using assms
    unfolding eval_def eval_Mul_def ebind_def Let_def
    by (auto split: option.splits sum.splits prod.splits dest!: fit_cases dest: first_Scalar)
next
  case Div
  then show ?thesis using assms
    unfolding eval_def eval_Div_def ebind_def Let_def
    by (auto split: option.splits sum.splits prod.splits dest!: fit_cases dest: first_Scalar)
next
  case If_node
  then show ?thesis using assms
    unfolding eval_def eval_If_def ebind_def Let_def
    by (auto split: option.splits sum.splits prod.splits dest!: fit_cases dest: first_Scalar)
qed (use assms in \<open>auto simp: eval_def eval_unary_def ebind_def Let_def
       split: option.splits sum.splits prod.splits dest!: fit_cases dest: first_Scalar\<close>)

lemma Sin_eval_stores_scalar:
  "eval plain_ops [feature [Fin 1, Fin 2] None]
        (fresh Sin (Idx 0) None [Fin 1, Fin 2] [Fin 1, Fin 1])
   = Inr (True,
          (fresh Sin (Idx 0) (Some (Scalar (Fin 1))) [Fin 1, Fin 2] [Fin 1, Fin 1])
            \<lparr>eval_tr := Some [Fin 1, Fin 2]\<rparr>,
          [[[Fin 1, Fin 2]]])"
  by code_simp

text \<open>
  Claim C6 says that Variable too stores the first component \<open>w[0]\<close>.  On the
  feature column \<open>[1, 2]\<close> with that column as target, \<open>Variable.eval\<close> leaves the
  array \<open>[1]\<close> as the weight, where the lemma above shows Sin leaving the number
  \<open>1\<close>.
\<close>

theorem Variable_eval_stores_vector:
  "eval ops [feature [Fin 1, Fin 2] None]
        (fresh Variable (Idx 0) None [Fin 1, Fin 2] [Fin 1, Fin 1])
   = Inr (True,
          (fresh Variable (Idx 0) (Some (Vector [Fin 1])) [Fin 1, Fin 2] [Fin 1, Fin 1])
            \<lparr>eval_tr := Some [Fin 1, Fin 2]\<rparr>,
          [[[Fin 1, Fin 2]]])"
proof -
  have "eval_Variable [feature [Fin 1, Fin 2] None]
        (fresh Variable (Idx 0) None [Fin 1, Fin 2] [Fin 1, Fin 1])
   = Inr (True,
          (fresh Variable (Idx 0) (Some (Vector [Fin 1])) [Fin 1, Fin 2] [Fin 1, Fin 1])
            \<lparr>eval_tr := Some [Fin 1, Fin 2]\<rparr>,
          [[[Fin 1, Fin 2]]])"
    by code_simp
  then show ?thesis by (simp add: eval_def fresh_def)
qed

section \<open>The test split in Div\<close>

lemma Mul_eval_tests_first_child:
  "eval ops [feature [Fin 1] None, feature [Fin 2] (Some [Fin 3]), feature [Fin 4] (Some [Fin 5])]
        (fresh Mul (Idxs [1, 2]) (Some (Scalar (Fin 1))) [Fin 2] [Fin 1])
   = Inr (True,
          (fresh Mul (Idxs [1, 2]) (Some (Scalar (Fin 1))) [Fin 2] [Fin 1])
            \<lparr>eval_tr := Some [Fin 8], eval_ts := Some [Fin 15]\<rparr>,
          [])"
  by (simp add: eval_def eval_Mul_def ebind_def children_def getitem_def train_def test_def
        fit_def feature_def fresh_def Let_def smul_def sscale_def)

lemma Div_eval_raises_on_context_head:
  "eval ops [feature [Fin 1] (Some [Fin 1]), feature [Fin 2] None, feature [Fin 4] None]
        (fresh Div (Idxs [1, 2]) (Some (Scalar (Fin 1))) [Fin 2] [Fin 1])
   = Inl TypeError"
  by (simp add: eval_def eval_Div_def ebind_def subscript_def getitem_def train_def test_def
        fit_def feature_def fresh_def Let_def)

text \<open>
  Claim C2 says that \<open>hy_test\<close> is computed exactly when the children expose a test
  split.  \<open>Div.eval\<close> looks at \<open>X[0]\<close> of the context instead of its child: here
  both children, at positions 1 and 2, have a test split and \<open>X[0]\<close> has none, and
  the evaluation succeeds with \<open>hy_test\<close> left unset, where Mul on the same context
  computes it (lemma above).
\<close>

theorem Div_eval_tests_context_head:
  "eval ops [feature [Fin 1] None, feature [Fin 2] (Some [Fin 3]), feature [Fin 4] (Some [Fin 5])]
        (fresh Div (Idxs [1, 2]) (Some (Scalar (Fin 1))) [Fin 2] [Fin 1])
   = Inr (True,
          (fresh Div (Idxs [1, 2]) (Some (Scalar (Fin 1))) [Fin 2] [Fin 1])
            \<lparr>eval_tr := Some (sscale (op_div ops [Fin 2] [Fin 4]) (Fin 1))\<rparr>,
          [])"
  by (simp add: eval_def eval_Div_def ebind_def subscript_def getitem_def train_def test_def
        fit_def feature_def fresh_def Let_def)

section \<open>Evaluating again with the weight set\<close>

lemma fit_preset: "weight b = Some w \<Longrightarrow> fit b regs store = Inr (Some (b, w), [])"
  by (simp add: fit_def)

lemma refit_Variable:
  assumes "eval_Variable X self = Inr (True, self1, calls)"
    and "variable b = variable self" and "weight b = weight self1"
  shows "\<exists>b'. eval_Variable X b = Inr (True, b', []) \<and> hy b' = hy self1"
  using assms unfolding eval_Variable_def ebind_def Let_def
  by (auto split: option.split_asm sum.split_asm prod.split_asm dest!: fit_cases
        simp: fit_preset)

lemma refit_Add:
  assumes "eval_Add X self = Inr (True, self1, calls)"
    and "variable b = variable self" and "weight b = weight self1"
  shows "\<exists>b'. eval_Add X b = Inr (True, b', []) \<and> hy b' = hy self1"
  using assms unfolding eval_Add_def ebind_def Let_def
  by (auto split: option.split_asm sum.split_asm prod.split_asm dest!: fit_cases
        simp: fit_preset)

lemma refit_Mul:
  assumes "eval_Mul X self = Inr (True, self1, calls)"
    and "variable b = variable self" and "weight b = weight self1"
  shows "\<exists>b'. eval_Mul X b = Inr (True, b', []) \<and> hy b' = hy self1"
  using assms unfolding eval_Mul_def ebind_def Let_def
  by (auto split: option.split_asm sum.split_asm prod.split_asm dest!: fit_cases
        simp: fit_preset)

lemma refit_Div:
  assumes "eval_Div ops X self = Inr (True, self1, calls)"
    and "variable b = variable self" and "weight b = weight self1"
  shows "\<exists>b'. eval_Div ops X b = Inr (True, b', []) \<and> hy b' = hy self1"
  using assms unfolding eval_Div_def ebind_def Let_def
  by (auto split: option.split_asm sum.split_asm prod.split_asm dest!: fit_cases
        simp: fit_preset)

lemma refit_unary:
  assumes "eval_unary f X self = Inr (True, self1, calls)"
    and "variable b = variable self" and "weight b = weight self1"
  shows "\<exists>b'. eval_unary f X b = Inr (True, b', []) \<and> hy b' = hy self1"
  using assms unfolding eval_unary_def ebind_def Let_def
  by (auto split: option.split_asm sum.split_asm prod.split_asm dest!: fit_cases
        simp: fit_preset)

lemma refit_If:
  assumes "eval_If ops X self = Inr (True, self1, calls)"
    and "variable b = variable self" and "weight b = weight self1"
  shows "\<exists>b'. eval_If ops X b = Inr (True, b', []) \<and> hy b' = hy self1"
  using assms unfolding eval_If_def ebind_def Let_def
  by (auto split: option.split_asm sum.split_asm prod.split_asm dest!: fit_cases
        simp: fit_preset)

lemma refit_eval:
  assumes "eval ops X self = Inr (True, self1, calls)"
    and "kind b = kind self" and "variable b = variable self" and "weight b = weight self1"
  shows "\<exists>b'. eval ops X b = Inr (True, b', []) \<and> hy b' = hy self1"
  using assms unfolding eval_def
  by (cases "kind self")
     (simp_all add: refit_Variable refit_Add refit_Mul refit_Div refit_unary refit_If)

text \<open>
  Claim C3: an evaluation of a node whose weight is set makes no call to
  \<open>compute_weight\<close> and leaves the weight as it was (and it succeeds); and after a
  successful evaluation the snapshot of the node carries the fitted weight, and
  evaluating the snapshot on the same context succeeds with no solver call and the
  same \<open>hy\<close>.
\<close>

theorem preset_weight_is_kept:
  assumes e: "eval ops X self = Inr (ok, self', calls)"
  shows "(\<forall>w. weight self = Some w \<longrightarrow> ok \<and> calls = [] \<and> weight self' = Some w) \<and>
         (ok \<and> constructed self \<longrightarrow>
            (\<exists>snap again. tostore self' = Inr snap \<and> weight snap = weight self' \<and>
               weight snap \<noteq> None \<and>
               eval ops X snap = Inr (True, again, []) \<and> hy again = hy self'))"
proof (rule conjI)
  show "\<forall>w. weight self = Some w \<longrightarrow> ok \<and> calls = [] \<and> weight self' = Some w"
    using settled_eval[OF e] by (cases ok) (auto simp: settled_def)
next
  have "\<exists>snap again. tostore self' = Inr snap \<and> weight snap = weight self' \<and>
               weight snap \<noteq> None \<and>
               eval ops X snap = Inr (True, again, []) \<and> hy again = hy self'"
    if a: "ok \<and> constructed self"
  proof -
    from a have e1: "eval ops X self = Inr (True, self', calls)" using e by simp
    from settled_eval[OF e1] obtain w where
      v: "variable self' = variable self" and k: "kind self' = kind self"
      and w: "weight self' = Some w"
      by (auto simp: settled_def)
    have "constructed self'" using a v by (simp add: constructed_def)
    from tostore_constructed[OF this] obtain snap where
      s: "tostore self' = Inr snap" "kind snap = kind self'" "variable snap = variable self'"
         "weight snap = weight self'"
      by simp
    from refit_eval[OF e1, of snap] s k v obtain again where
      "eval ops X snap = Inr (True, again, [])" "hy again = hy self'"
      by auto
    then show ?thesis using s w by auto
  qed
  then show "ok \<and> constructed self \<longrightarrow>
            (\<exists>snap again. tostore self' = Inr snap \<and> weight snap = weight self' \<and>
               weight snap \<noteq> None \<and>
               eval ops X snap = Inr (True, again, []) \<and> hy again = hy self')"
    by blast
qed

theorem preset_weight_is_kept_witness:
  "(\<exists>snap again.
      tostore ((fresh Sin (Idx 0) (Some (Scalar (Fin 2))) [Fin 2, Fin 4] [Fin 1, Fin 1])
                 \<lparr>eval_tr := Some [Fin 2, Fin 4], eval_ts := Some [Fin 6]\<rparr>) = Inr snap \<and>
      eval plain_ops [feature [Fin 1, Fin 2] (Some [Fin 3])] snap = Inr (True, again, []) \<and>
      hy again = Some [Fin 2, Fin 4]) \<and>
   eval plain_ops [feature [Fin 1, Fin 2] (Some [Fin 3])]
        (fresh Sin (Idx 0) (Some (Scalar (Fin 2))) [Fin 2, Fin 4] [Fin 1, Fin 1])
     = Inr (True,
            (fresh Sin (Idx 0) (Some (Scalar (Fin 2))) [Fin 2, Fin 4] [Fin 1, Fin 1])
                 \<lparr>eval_tr := Some [Fin 2, Fin 4], eval_ts := Some [Fin 6]\<rparr>, [])"
proof -
  let ?X = "[feature [Fin 1, Fin 2] (Some [Fin 3])]"
  let ?n = "fresh Sin (Idx 0) None [Fin 2, Fin 4] [Fin 1, Fin 1]"
  let ?p = "fresh Sin (Idx 0) (Some (Scalar (Fin 2))) [Fin 2, Fin 4] [Fin 1, Fin 1]"
  let ?n' = "?p\<lparr>eval_tr := Some [Fin 2, Fin 4], eval_ts := Some [Fin 6]\<rparr>"
  have e: "eval plain_ops ?X ?n = Inr (True, ?n', [[[Fin 1, Fin 2]]])"
    by code_simp
  have c: "constructed ?n" by (simp add: constructed_def init_variable_def fresh_def)
  have e2: "eval plain_ops ?X ?p = Inr (True, ?n', [])"
    by code_simp
  have w: "weight ?p = Some (Scalar (Fin 2))" by (simp add: fresh_def)
  from preset_weight_is_kept[OF e2] w have "weight ?n' = Some (Scalar (Fin 2))" by blast
  with preset_weight_is_kept[OF e] c e2 show ?thesis by (auto simp: fresh_def)
qed

section \<open>Solving linear systems\<close>

lemma dotr_Nil [simp]: "dotr [] x = 0" "dotr q [] = 0"
  by (simp_all add: dotr_def)

lemma dotr_Cons [simp]: "dotr (a # q) (x # xs) = a * x + dotr q xs"
  by (simp add: dotr_def)

lemma dotr_sub:
  "length q = length ps \<Longrightarrow>
   dotr (map2 (\<lambda>x y. x - f * y) q ps) xs = dotr q xs - f * dotr ps xs"
proof (induction q ps arbitrary: xs rule: list_induct2)
  case Nil
  then show ?case by simp
next
  case (Cons x q y ps)
  show ?case
  proof (cases xs)
    case Nil
    then show ?thesis by simp
  next
    case (Cons z zs)
    then show ?thesis using Cons.IH[of zs] by (simp add: algebra_simps)
  qed
qed

lemma dotr_zero: "dotr q (replicate n 0) = 0"
proof (induction q arbitrary: n)
  case Nil
  then show ?case by simp
next
  case (Cons a q)
  then show ?case by (cases n) simp_all
qed

lemma find_pivot_Some:
  "find_pivot es = Some (p, rest) \<Longrightarrow>
   lead p \<noteq> 0 \<and> set es = insert p (set rest) \<and> length es = Suc (length rest)"
proof (induction es arbitrary: rest)
  case Nil
  then show ?case by simp
next
  case (Cons e es)
  show ?case
  proof (cases "lead e \<noteq> 0")
    case True
    then show ?thesis using Cons.prems by auto
  next
    case False
    then obtain rest' where f: "find_pivot es = Some (p, rest')" and r: "rest = e # rest'"
      using Cons.prems by (auto split: option.splits)
    from Cons.IH[OF f] r show ?thesis by auto
  qed
qed

lemma find_pivot_None: "find_pivot es = None \<Longrightarrow> \<forall>e\<in>set es. lead e = 0"
  by (induction es) (auto split: if_splits option.splits)

lemma eliminate_fst:
  "fst (eliminate p e) = map2 (\<lambda>x y. x - (lead e / lead p) * y) (tl (fst e)) (tl (fst p))"
  by (simp add: eliminate_def Let_def)

lemma eliminate_snd: "snd (eliminate p e) = snd e - (lead e / lead p) * snd p"
  by (simp add: eliminate_def Let_def)

lemma rows_of_eliminate:
  assumes "rows_of (Suc n) (p # rest)"
  shows "rows_of n (map (eliminate p) rest)"
  using assms by (auto simp: rows_of_def eliminate_fst)

lemma lead_dot:
  "length (fst e) = Suc n \<Longrightarrow> dotr (fst e) (x # xs) = lead e * x + dotr (tl (fst e)) xs"
  by (cases e; cases "fst e") auto

lemma eliminate_dot:
  assumes "length (fst e) = Suc n" "length (fst p) = Suc n"
  shows "dotr (fst (eliminate p e)) xs =
         dotr (tl (fst e)) xs - (lead e / lead p) * dotr (tl (fst p)) xs"
  unfolding eliminate_fst using assms by (intro dotr_sub) simp

lemma gauss_SucE:
  assumes "gauss (Suc n) es = Some x"
  obtains p rest xs where "find_pivot es = Some (p, rest)"
    "gauss n (map (eliminate p) rest) = Some xs"
    "x = (snd p - dotr (tl (fst p)) xs) / lead p # xs"
  using assms by (auto split: option.splits)

lemma gauss_sound:
  "gauss n es = Some x \<Longrightarrow> rows_of n es \<Longrightarrow> length es = n \<Longrightarrow>
   length x = n \<and> (\<forall>e\<in>set es. dotr (fst e) x = snd e)"
proof (induction n arbitrary: es x)
  case 0
  then show ?case by simp
next
  case (Suc n)
  from Suc.prems(1) obtain p rest xs where
    fp: "find_pivot es = Some (p, rest)" and g: "gauss n (map (eliminate p) rest) = Some xs"
    and x: "x = (snd p - dotr (tl (fst p)) xs) / lead p # xs"
    by (rule gauss_SucE)
  let ?x0 = "(snd p - dotr (tl (fst p)) xs) / lead p"
  from find_pivot_Some[OF fp] have lp: "lead p \<noteq> 0" and se: "set es = insert p (set rest)"
    and le: "length es = Suc (length rest)" by simp_all
  have rw: "rows_of (Suc n) (p # rest)" using Suc.prems(2) se by (simp add: rows_of_def)
  have lenp: "length (fst p) = Suc n" using rw by (simp add: rows_of_def)
  have ih: "length xs = n \<and> (\<forall>e\<in>set (map (eliminate p) rest). dotr (fst e) xs = snd e)"
    using Suc.IH[OF g rows_of_eliminate[OF rw]] le Suc.prems(3) by simp
  have pe: "lead p * ?x0 + dotr (tl (fst p)) xs = snd p" using lp by simp
  have p_ok: "dotr (fst p) x = snd p"
    unfolding x lead_dot[OF lenp] by (rule pe)
  have e_ok: "dotr (fst e) x = snd e" if e: "e \<in> set rest" for e
  proof -
    have lene: "length (fst e) = Suc n" using rw e by (simp add: rows_of_def)
    define f where "f = lead e / lead p"
    define x0 where "x0 = (snd p - dotr (tl (fst p)) xs) / lead p"
    define P where "P = dotr (tl (fst p)) xs"
    define E where "E = dotr (tl (fst e)) xs"
    have "dotr (fst (eliminate p e)) xs = snd (eliminate p e)" using ih e by simp
    then have r: "E - f * P = snd e - f * snd p"
      unfolding eliminate_dot[OF lene lenp] eliminate_snd f_def P_def E_def .
    have sp: "snd p = lead p * x0 + P" using pe by (simp add: x0_def P_def)
    have fl: "f * lead p = lead e" using lp by (simp add: f_def)
    have "E = snd e - (f * lead p) * x0" using r unfolding sp by (simp add: algebra_simps)
    then have "lead e * x0 + E = snd e" unfolding fl by simp
    then show ?thesis unfolding x lead_dot[OF lene] x0_def E_def .
  qed
  show ?case using ih p_ok e_ok se by (auto simp: x)
qed

lemma gauss_kernel_trivial:
  "gauss n es = Some x \<Longrightarrow> rows_of n es \<Longrightarrow> length v = n \<Longrightarrow>
   \<forall>e\<in>set es. dotr (fst e) v = 0 \<Longrightarrow> v = replicate n 0"
proof (induction n arbitrary: es x v)
  case 0
  then show ?case by simp
next
  case (Suc n)
  from Suc.prems(1) obtain p rest xs where
    fp: "find_pivot es = Some (p, rest)" and g: "gauss n (map (eliminate p) rest) = Some xs"
    by (rule gauss_SucE)
  from find_pivot_Some[OF fp] have lp: "lead p \<noteq> 0" and se: "set es = insert p (set rest)"
    by simp_all
  have rw: "rows_of (Suc n) (p # rest)" using Suc.prems(2) se by (simp add: rows_of_def)
  have lenp: "length (fst p) = Suc n" using rw by (simp add: rows_of_def)
  obtain v0 vs where v: "v = v0 # vs" and lvs: "length vs = n"
    using Suc.prems(3) by (cases v) auto
  have p0: "lead p * v0 + dotr (tl (fst p)) vs = 0"
    using Suc.prems(4) se lead_dot[OF lenp, of v0 vs] by (simp add: v)
  have red: "\<forall>e'\<in>set (map (eliminate p) rest). dotr (fst e') vs = 0"
  proof
    fix e' assume "e' \<in> set (map (eliminate p) rest)"
    then obtain e where e: "e \<in> set rest" and e': "e' = eliminate p e" by auto
    have lene: "length (fst e) = Suc n" using rw e by (simp add: rows_of_def)
    have e0: "lead e * v0 + dotr (tl (fst e)) vs = 0"
      using Suc.prems(4) se e lead_dot[OF lene, of v0 vs] by (simp add: v)
    have "dotr (tl (fst e)) vs = - (lead e * v0)" using e0 by simp
    moreover have "dotr (tl (fst p)) vs = - (lead p * v0)" using p0 by simp
    ultimately show "dotr (fst e') vs = 0"
      unfolding e' eliminate_dot[OF lene lenp] using lp by simp
  qed
  have vs0: "vs = replicate n 0"
    by (rule Suc.IH[OF g rows_of_eliminate[OF rw] lvs red])
  have "lead p * v0 = 0" using p0 by (simp add: vs0 dotr_zero)
  then have "v0 = 0" using lp by simp
  then show ?case by (simp add: v vs0)
qed

lemma gauss_None_kernel:
  "gauss n es = None \<Longrightarrow> rows_of n es \<Longrightarrow>
   \<exists>v. length v = n \<and> v \<noteq> replicate n 0 \<and> (\<forall>e\<in>set es. dotr (fst e) v = 0)"
proof (induction n arbitrary: es)
  case 0
  then show ?case by simp
next
  case (Suc n)
  show ?case
  proof (cases "find_pivot es")
    case None
    have z: "\<forall>e\<in>set es. lead e = 0" by (rule find_pivot_None[OF None])
    have "dotr (fst e) (1 # replicate n 0) = 0" if e: "e \<in> set es" for e
    proof -
      have "length (fst e) = Suc n" using Suc.prems(2) e by (simp add: rows_of_def)
      from lead_dot[OF this, of 1 "replicate n 0"] z e show ?thesis by (simp add: dotr_zero)
    qed
    then have "length (1 # replicate n (0::real)) = Suc n \<and>
        1 # replicate n 0 \<noteq> replicate (Suc n) (0::real) \<and>
        (\<forall>e\<in>set es. dotr (fst e) (1 # replicate n 0) = 0)"
      by simp
    then show ?thesis by blast
  next
    case (Some pr)
    obtain p rest where pr: "pr = (p, rest)" by (cases pr)
    have fp: "find_pivot es = Some (p, rest)" using Some pr by simp
    from find_pivot_Some[OF fp] have lp: "lead p \<noteq> 0" and se: "set es = insert p (set rest)"
      by simp_all
    have rw: "rows_of (Suc n) (p # rest)" using Suc.prems(2) se by (simp add: rows_of_def)
    have lenp: "length (fst p) = Suc n" using rw by (simp add: rows_of_def)
    have g: "gauss n (map (eliminate p) rest) = None"
      using Suc.prems(1) fp by (auto split: option.splits)
    from Suc.IH[OF g rows_of_eliminate[OF rw]] obtain vs where
      lvs: "length vs = n" and nz: "vs \<noteq> replicate n 0"
      and k: "\<forall>e'\<in>set (map (eliminate p) rest). dotr (fst e') vs = 0"
      by blast
    let ?v0 = "- dotr (tl (fst p)) vs / lead p"
    have p0: "dotr (fst p) (?v0 # vs) = 0"
      unfolding lead_dot[OF lenp] using lp by simp
    have e0: "dotr (fst e) (?v0 # vs) = 0" if e: "e \<in> set rest" for e
    proof -
      have lene: "length (fst e) = Suc n" using rw e by (simp add: rows_of_def)
      have "dotr (fst (eliminate p e)) vs = 0" using k e by simp
      then have "dotr (tl (fst e)) vs = (lead e / lead p) * dotr (tl (fst p)) vs"
        unfolding eliminate_dot[OF lene lenp] by simp
      then show ?thesis unfolding lead_dot[OF lene] by simp
    qed
    have "length (?v0 # vs) = Suc n \<and> ?v0 # vs \<noteq> replicate (Suc n) 0 \<and>
        (\<forall>e\<in>set es. dotr (fst e) (?v0 # vs) = 0)"
      using lvs nz p0 e0 se by auto
    then show ?thesis by blast
  qed
qed

lemma square_rows: "square A b \<Longrightarrow> rows_of (length A) (zip A b)"
  by (auto simp: square_def rows_of_def list_all_iff dest: set_zip_leftD)

lemma square_zip_nth:
  assumes "square A b" "i < length A"
  shows "(A ! i, b ! i) \<in> set (zip A b)"
proof -
  have "i < length (zip A b)" using assms by (simp add: square_def)
  then have "zip A b ! i \<in> set (zip A b)" by (rule nth_mem)
  then show ?thesis using assms by (simp add: square_def)
qed

lemma solve_square: "solve A b = Some w \<Longrightarrow> square A b"
  by (simp add: solve_def split: if_splits)

lemma solve_sound:
  assumes "solve A b = Some w"
  shows "length w = length A \<and> (\<forall>i<length A. dotr (A ! i) w = b ! i)"
proof -
  have sq: "square A b" by (rule solve_square[OF assms])
  have g: "gauss (length A) (zip A b) = Some w" using assms sq by (simp add: solve_def)
  have l: "length (zip A b) = length A" using sq by (simp add: square_def)
  from gauss_sound[OF g square_rows[OF sq] l]
  have w: "length w = length A" and a: "\<forall>e\<in>set (zip A b). dotr (fst e) w = snd e"
    by simp_all
  have "dotr (A ! i) w = b ! i" if "i < length A" for i
    using a square_zip_nth[OF sq that] by auto
  then show ?thesis using w by simp
qed

lemma solve_Some_regular:
  assumes "solve A b = Some w"
  shows "\<not> singular A"
proof
  assume "singular A"
  then obtain v where v: "length v = length A" "v \<noteq> replicate (length A) 0"
    and k: "\<forall>row\<in>set A. dotr row v = 0"
    unfolding singular_def by blast
  have sq: "square A b" by (rule solve_square[OF assms])
  have g: "gauss (length A) (zip A b) = Some w" using assms sq by (simp add: solve_def)
  have "\<forall>e\<in>set (zip A b). dotr (fst e) v = 0"
    using k by (auto dest: set_zip_leftD)
  from gauss_kernel_trivial[OF g square_rows[OF sq] v(1) this] v(2) show False by simp
qed

lemma solve_None_singular:
  assumes "square A b" and "solve A b = None"
  shows "singular A"
proof -
  have g: "gauss (length A) (zip A b) = None" using assms by (simp add: solve_def)
  from gauss_None_kernel[OF g square_rows[OF assms(1)]] obtain v where
    v: "length v = length A" "v \<noteq> replicate (length A) 0"
    and k: "\<forall>e\<in>set (zip A b). dotr (fst e) v = 0"
    by blast
  have "dotr row v = 0" if "row \<in> set A" for row
  proof -
    from that obtain i where i: "i < length A" "row = A ! i" by (auto simp: in_set_conv_nth)
    from k square_zip_nth[OF assms(1) i(1)] show ?thesis by (auto simp: i(2))
  qed
  then show ?thesis unfolding singular_def using v by blast
qed

section \<open>What compute_weight returns\<close>

lemma Fin_the_fin: "isfin x \<Longrightarrow> Fin (the_fin x) = x"
  by (cases x) simp_all

lemma map_Fin_the_fin: "sig_isfinite a \<Longrightarrow> map Fin (map the_fin a) = a"
  by (induction a) (simp_all add: sig_isfinite_def Fin_the_fin)

lemma ssum_smul_Fin: "ssum (smul (map Fin a) (map Fin c)) = Fin (dotr a c)"
proof (induction a arbitrary: c)
  case Nil
  then show ?case by (simp add: ssum_def smul_def)
next
  case (Cons x a)
  show ?case
  proof (cases c)
    case Nil
    then show ?thesis by (simp add: ssum_def smul_def)
  next
    case (Cons z zs)
    then show ?thesis using Cons.IH[of zs] by (simp add: ssum_def smul_def)
  qed
qed

lemma dims_rows: "dims k A \<Longrightarrow> row \<in> set A \<Longrightarrow> length row = k"
  by (auto simp: dims_def in_set_conv_nth)

lemma gram_square:
  "square (map (map the_fin) (snd (gram_loop m r))) (map the_fin (rhs y r))"
  using gram_loop_dims[of r m]
  by (auto simp: square_def list_all_iff rhs_def dims_def dest: dims_rows[OF gram_loop_dims])

lemma compute_weight_unfold:
  assumes "ytr self = Some y" and "mask self = Some m"
  shows "compute_weight self r =
     Inr (if \<not> mat_isfinite (snd (gram_loop m r)) \<or> \<not> sig_isfinite (rhs y r) then None
          else map_option (map Fin)
                 (solve (map (map the_fin) (snd (gram_loop m r))) (map the_fin (rhs y r))),
          map (\<lambda>x. smul x m) r)"
proof -
  obtain R A where g: "gram_loop m r = (R, A)" by (cases "gram_loop m r")
  have R: "R = map (\<lambda>x. smul x m) r" using gram_loop_fst[of m r] g by simp
  show ?thesis
    unfolding compute_weight_def using assms g R
    by (simp add: Let_def split: option.split)
qed

lemma gram_rows_finite:
  assumes "mat_isfinite (snd (gram_loop m r))" and "i < length r"
  shows "map Fin (map the_fin (snd (gram_loop m r) ! i)) = snd (gram_loop m r) ! i"
proof -
  have "length (snd (gram_loop m r)) = length r"
    using gram_loop_dims[of r m] by (simp add: dims_def)
  then have "sig_isfinite (snd (gram_loop m r) ! i)"
    using assms by (simp add: mat_isfinite_def list_all_length)
  then show ?thesis by (rule map_Fin_the_fin)
qed

lemma solution_in_fnum:
  assumes fa: "mat_isfinite (snd (gram_loop m r))" and fb: "sig_isfinite (rhs y r)"
    and s: "solve (map (map the_fin) (snd (gram_loop m r))) (map the_fin (rhs y r)) = Some coef"
  shows "length coef = length r \<and>
         (\<forall>i<length r. ssum (smul (snd (gram_loop m r) ! i) (map Fin coef)) = rhs y r ! i)"
proof -
  let ?A = "snd (gram_loop m r)"
  let ?b = "rhs y r"
  have lA: "length ?A = length r" using gram_loop_dims[of r m] by (simp add: dims_def)
  have lb: "length ?b = length r" by (simp add: rhs_def)
  from solve_sound[OF s] lA have lc: "length coef = length r"
    and eq: "\<forall>i<length r. dotr (map (map the_fin) ?A ! i) coef = map the_fin ?b ! i"
    by simp_all
  have "ssum (smul (?A ! i) (map Fin coef)) = ?b ! i" if i: "i < length r" for i
  proof -
    have "ssum (smul (?A ! i) (map Fin coef))
        = ssum (smul (map Fin (map the_fin (?A ! i))) (map Fin coef))"
      unfolding gram_rows_finite[OF fa i] ..
    also have "\<dots> = Fin (dotr (map the_fin (?A ! i)) coef)" by (rule ssum_smul_Fin)
    also have "\<dots> = Fin (the_fin (?b ! i))" using eq i lA lb by simp
    also have "\<dots> = ?b ! i"
      using fb i lb by (intro Fin_the_fin) (simp add: sig_isfinite_def list_all_length)
    finally show ?thesis .
  qed
  then show ?thesis using lc by simp
qed

text \<open>
  In the exact arithmetic of this model the failures of \<open>compute_weight\<close> are the
  non-finite entries of the \<open>A\<close> and \<open>b\<close> it builds and the singular matrices.
  This is a fact about the idealised solver and products only: in doubles,
  \<open>np.linalg.solve\<close> can return weights for a singular matrix whose rounded
  elimination meets no zero pivot, and a product of finite entries can overflow.
\<close>

lemma exact_compute_weight_fails_iff:
  assumes "ytr self = Some y" and "mask self = Some m"
  shows "\<exists>res. compute_weight self r = Inr (res, map (\<lambda>x. smul x m) r) \<and>
           (res = None \<longleftrightarrow>
              \<not> mat_isfinite (snd (gram_loop m r)) \<or> \<not> sig_isfinite (rhs y r) \<or>
              singular (map (map the_fin) (snd (gram_loop m r)))) \<and>
           (\<forall>w. res = Some w \<longrightarrow>
              length w = length r \<and>
              (\<forall>i<length r. ssum (smul (snd (gram_loop m r) ! i) w) = rhs y r ! i))"
proof (cases "\<not> mat_isfinite (snd (gram_loop m r)) \<or> \<not> sig_isfinite (rhs y r)")
  case True
  then show ?thesis using compute_weight_unfold[OF assms, of r] by auto
next
  case False
  then have fa: "mat_isfinite (snd (gram_loop m r))" and fb: "sig_isfinite (rhs y r)"
    by simp_all
  let ?A = "map (map the_fin) (snd (gram_loop m r))"
  let ?b = "map the_fin (rhs y r)"
  show ?thesis
  proof (cases "solve ?A ?b")
    case None
    have "singular ?A" by (rule solve_None_singular[OF gram_square None])
    then show ?thesis using compute_weight_unfold[OF assms, of r] None fa fb by simp
  next
    case (Some coef)
    have "\<not> singular ?A" by (rule solve_Some_regular[OF Some])
    moreover note solution_in_fnum[OF fa fb Some]
    ultimately show ?thesis using compute_weight_unfold[OF assms, of r] Some fa fb by simp
  qed
qed

section \<open>A Variable fitted to its own column\<close>

lemma fmul_one: "fmul x (Fin 1) = x"
  by (cases x) simp_all

lemma smul_ones: "smul c (replicate (length c) (Fin 1)) = c"
  by (induction c) (simp_all add: smul_def fmul_one)

lemma sscale_one: "sscale c (Fin 1) = c"
  by (induction c) (simp_all add: sscale_def fmul_one)

lemma dotr_self_nonneg: "0 \<le> dotr cs cs"
  by (induction cs) simp_all

lemma dotr_self_pos: "\<exists>x\<in>set cs. x \<noteq> 0 \<Longrightarrow> 0 < dotr cs cs"
proof (induction cs)
  case Nil
  then show ?case by simp
next
  case (Cons x cs)
  show ?case
  proof (cases "x = 0")
    case True
    then show ?thesis using Cons by simp
  next
    case False
    then have "0 < x * x" by (simp add: power2_eq_square[symmetric])
    then show ?thesis using dotr_self_nonneg[of cs] by simp
  qed
qed

lemma gram_loop_single:
  "gram_loop m [c] = ([smul c m], [[ssum (smul (smul c m) (smul c m))]])"
  by (simp add: gram_loop_def gram_step_def gram_row_def gram_cell_def mat_set_def Let_def)

lemma solve_single: "s \<noteq> 0 \<Longrightarrow> solve [[s]] [s] = Some [1]"
  by (simp add: solve_def square_def)

lemma own_column_weight:
  assumes y: "ytr self = Some c" and m: "mask self = Some (replicate (length c) (Fin 1))"
    and fin: "sig_isfinite c" and nz: "\<exists>x\<in>set c. x \<noteq> Fin 0"
  shows "compute_weight self [c] = Inr (Some [Fin 1], [c])"
proof -
  let ?cs = "map the_fin c"
  have c: "c = map Fin ?cs" using map_Fin_the_fin[OF fin] by simp
  have "\<exists>x\<in>set ?cs. x \<noteq> 0"
  proof -
    from nz obtain x where x: "x \<in> set c" "x \<noteq> Fin 0" by blast
    then have "isfin x" using fin by (simp add: sig_isfinite_def list_all_iff)
    then have "the_fin x \<noteq> 0" using x(2) by (cases x) simp_all
    then show ?thesis using x(1) by auto
  qed
  then have pos: "dotr ?cs ?cs \<noteq> 0" using dotr_self_pos[of ?cs] by simp
  have s: "ssum (smul c c) = Fin (dotr ?cs ?cs)"
    using ssum_smul_Fin[of ?cs ?cs] c by simp
  show ?thesis
    unfolding compute_weight_unfold[OF y m]
    by (simp add: gram_loop_single smul_ones rhs_def s mat_isfinite_def sig_isfinite_def
          solve_single[OF pos])
qed

text \<open>
  Claim C8: a Variable on a feature column that is finite and not all zero, with a
  mask of ones and the column itself as training target, is fitted with weight 1 and
  its \<open>hy\<close> is the column.  The weight is held as \<open>Variable.eval\<close> stores it, the
  array of the one number 1.
\<close>

theorem Variable_fits_own_column:
  assumes "kind self = Variable" and "variable self = Idx i" and "weight self = None"
    and "getitem X i = Inr col" and "hy col = Some c"
    and "ytr self = Some c" and "mask self = Some (replicate (length c) (Fin 1))"
    and "\<forall>x\<in>set c. isfin x" and "\<exists>x\<in>set c. x \<noteq> Fin 0"
  shows "\<exists>self' calls. eval ops X self = Inr (True, self', calls) \<and>
           weight self' = Some (Vector [Fin 1]) \<and> hy self' = Some c"
proof -
  have fin: "sig_isfinite c" using assms(8) by (simp add: sig_isfinite_def list_all_iff)
  have cw: "compute_weight self [c] = Inr (Some [Fin 1], [c])"
    by (rule own_column_weight[OF assms(6,7) fin assms(9)])
  show ?thesis
    using assms(1-5) cw
    by (cases "hy_test col")
       (simp_all add: eval_def eval_Variable_def child_def train_def fit_def whole_def
          ebind_def sscale_one Let_def)
qed

theorem Variable_fits_own_column_witness:
  "\<exists>self' calls.
     eval plain_ops [feature [Fin 3, Fin 0, Fin (-2)] None]
          (fresh Variable (Idx 0) None [Fin 3, Fin 0, Fin (-2)] [Fin 1, Fin 1, Fin 1])
       = Inr (True, self', calls) \<and>
     weight self' = Some (Vector [Fin 1]) \<and> hy self' = Some [Fin 3, Fin 0, Fin (-2)]"
  using Variable_fits_own_column
    [of "fresh Variable (Idx 0) None [Fin 3, Fin 0, Fin (-2)] [Fin 1, Fin 1, Fin 1]" 0
        "[feature [Fin 3, Fin 0, Fin (-2)] None]" "feature [Fin 3, Fin 0, Fin (-2)] None"
        "[Fin 3, Fin 0, Fin (-2)]" plain_ops]
  by (simp add: fresh_def feature_def getitem_def numeral_3_eq_3)

section \<open>The system that compute_weight solves\<close>

lemma fmul_comm: "fmul a b = fmul b a"
  by (cases a; cases b) simp_all

lemma smul_comm: "smul a b = smul b a"
proof (induction a arbitrary: b)
  case Nil
  then show ?case by (simp add: smul_def)
next
  case (Cons x a)
  then show ?case by (cases b) (simp_all add: smul_def fmul_comm)
qed

lemma fmul_mask:
  "x = Fin 0 \<or> x = Fin 1 \<Longrightarrow> fmul (fmul a x) (fmul b x) = fmul (fmul a x) b"
  by (cases a; cases b) auto

lemma smul_mask:
  "\<forall>x\<in>set m. x = Fin 0 \<or> x = Fin 1 \<Longrightarrow>
   smul (smul a m) (smul b m) = smul (smul a m) b"
proof (induction a arbitrary: m b)
  case Nil
  then show ?case by (simp add: smul_def)
next
  case (Cons x a)
  show ?case
  proof (cases m)
    case Nil
    then show ?thesis by (simp add: smul_def)
  next
    case mc: (Cons z zs)
    show ?thesis
    proof (cases b)
      case Nil
      then show ?thesis by (simp add: smul_def)
    next
      case bc: (Cons u us)
      have z: "z = Fin 0 \<or> z = Fin 1" and zs: "\<forall>x\<in>set zs. x = Fin 0 \<or> x = Fin 1"
        using Cons.prems mc by simp_all
      have "smul (smul a zs) (smul us zs) = smul (smul a zs) us"
        by (rule Cons.IH[OF zs])
      then show ?thesis using fmul_mask[OF z, of x u] by (simp add: smul_def mc bc)
    qed
  qed
qed

lemma gram_entry_masked:
  assumes "\<forall>x\<in>set m. x = Fin 0 \<or> x = Fin 1"
  shows "gram_entry m r i j = ssum (smul (smul (r ! i) m) (smul (r ! j) m))"
proof -
  consider "i = j" | "i < j" | "j < i" by linarith
  then show ?thesis
  proof cases
    case 1
    then show ?thesis by (simp add: gram_entry_def)
  next
    case 2
    then have "gram_entry m r i j = ssum (smul (smul (r ! i) m) (r ! j))"
      by (simp add: gram_entry_def Let_def min_def max_def)
    then show ?thesis by (simp add: smul_mask[OF assms])
  next
    case 3
    then have "gram_entry m r i j = ssum (smul (smul (r ! j) m) (r ! i))"
      by (simp add: gram_entry_def Let_def min_def max_def)
    also have "\<dots> = ssum (smul (smul (r ! j) m) (smul (r ! i) m))"
      by (simp add: smul_mask[OF assms])
    also have "\<dots> = ssum (smul (smul (r ! i) m) (smul (r ! j) m))"
      by (simp add: smul_comm[of "smul (r ! j) m"])
    finally show ?thesis .
  qed
qed

lemma gram_loop_masked:
  assumes "\<forall>x\<in>set m. x = Fin 0 \<or> x = Fin 1"
  shows "snd (gram_loop m r) = masked_gram m r"
proof (rule nth_equalityI)
  show l: "length (snd (gram_loop m r)) = length (masked_gram m r)"
    using gram_loop_dims[of r m] by (simp add: dims_def masked_gram_def)
  fix i assume "i < length (snd (gram_loop m r))"
  then have i: "i < length r" using gram_loop_dims[of r m] by (simp add: dims_def)
  show "snd (gram_loop m r) ! i = masked_gram m r ! i"
  proof (rule nth_equalityI)
    show "length (snd (gram_loop m r) ! i) = length (masked_gram m r ! i)"
      using gram_loop_dims[of r m] i by (simp add: dims_def masked_gram_def)
    fix j assume "j < length (snd (gram_loop m r) ! i)"
    then have j: "j < length r" using gram_loop_dims[of r m] i by (simp add: dims_def)
    show "snd (gram_loop m r) ! i ! j = masked_gram m r ! i ! j"
      using gram_loop_nth[OF i j, of m] gram_entry_masked[OF assms, of r i j] i j
      by (simp add: masked_gram_def)
  qed
qed

text \<open>
  What the code solves, for a mask of zeros and ones: the matrix is the one of the
  masked regressors, the right-hand side is \<open>dot(r_i, ytr)\<close> of the regressors as
  passed, since \<open>b\<close> is computed on the line before the loop that masks them.
\<close>

lemma raw_rhs_system_solved:
  assumes "ytr self = Some y" and "mask self = Some m"
    and "\<forall>x\<in>set m. x = Fin 0 \<or> x = Fin 1"
    and "compute_weight self r = Inr (Some w, r')"
  shows "length w = length r \<and> mat_vec (masked_gram m r) w = rhs y r"
proof -
  let ?A = "snd (gram_loop m r)"
  from assms(4) have fa: "mat_isfinite ?A" and fb: "sig_isfinite (rhs y r)"
    unfolding compute_weight_unfold[OF assms(1,2)] by (auto split: if_splits)
  from assms(4) fa fb obtain coef where
    s: "solve (map (map the_fin) ?A) (map the_fin (rhs y r)) = Some coef"
    and w: "w = map Fin coef"
    unfolding compute_weight_unfold[OF assms(1,2)] by auto
  from solution_in_fnum[OF fa fb s] have lw: "length w = length r"
    and eq: "\<forall>i<length r. ssum (smul (?A ! i) w) = rhs y r ! i"
    by (simp_all add: w)
  have lA: "length ?A = length r" using gram_loop_dims[of r m] by (simp add: dims_def)
  have "mat_vec ?A w = rhs y r"
    by (rule nth_equalityI) (simp_all add: mat_vec_def lA rhs_def eq[unfolded rhs_def])
  then show ?thesis using lw by (simp add: gram_loop_masked[OF assms(3)])
qed

text \<open>
  Claim C1: the mask is applied to every regressor before either product is taken,
  so the returned solution solves \<open>A w = b\<close> with \<open>A[i, j] = dot(m * r_i, m * r_j)\<close>
  and \<open>b[i] = dot(m * r_i, ytr)\<close>.  The code does not do this.  With the regressor
  \<open>[1, 1]\<close>, the target \<open>[1, 1]\<close> and the mask \<open>[1, 0]\<close> it returns \<open>[2]\<close>, where
  the system of the claim, \<open>1 * w = 1\<close>, is solved by \<open>[1]\<close>, the least-squares
  weight of \<open>r * w = ytr\<close> that the docstring promises; with the target
  \<open>[1, 100]\<close> it returns \<open>[101]\<close>: the weight follows the target on the row that
  the mask excludes.
\<close>

theorem compute_weight_rhs_ignores_mask:
  "compute_weight (fresh Variable (Idx 0) None [Fin 1, Fin 1] [Fin 1, Fin 0]) [[Fin 1, Fin 1]]
     = Inr (Some [Fin 2], [[Fin 1, Fin 0]]) \<and>
   mat_vec (masked_gram [Fin 1, Fin 0] [[Fin 1, Fin 1]]) [Fin 2]
     \<noteq> masked_rhs [Fin 1, Fin 0] [Fin 1, Fin 1] [[Fin 1, Fin 1]] \<and>
   mat_vec (masked_gram [Fin 1, Fin 0] [[Fin 1, Fin 1]]) [Fin 1]
     = masked_rhs [Fin 1, Fin 0] [Fin 1, Fin 1] [[Fin 1, Fin 1]] \<and>
   compute_weight (fresh Variable (Idx 0) None [Fin 1, Fin 100] [Fin 1, Fin 0]) [[Fin 1, Fin 1]]
     = Inr (Some [Fin 101], [[Fin 1, Fin 0]])"
  by code_simp

theorem compute_weight_rhs_ignores_mask_witness:
  "\<exists>w r'.
     compute_weight (fresh Variable (Idx 0) None [Fin 1, Fin 1] [Fin 1, Fin 0]) [[Fin 1, Fin 1]]
       = Inr (Some w, r') \<and>
     mat_vec (masked_gram [Fin 1, Fin 0] [[Fin 1, Fin 1]]) w
       \<noteq> masked_rhs [Fin 1, Fin 0] [Fin 1, Fin 1] [[Fin 1, Fin 1]]"
  using compute_weight_rhs_ignores_mask by blast

end
